theory Spec2Isabelle
  imports Main "HOL-Library.Word" "HOL-Library.Multiset"
begin

unbundle bit_operations_syntax

section \<open>IPv4 reassembly: the data model of \<open>ip_reassembler.cpp\<close>\<close>

text \<open>
  The packet library (its \<open>PDU\<close> and \<open>IP\<close> classes, \<open>pdu_from_flag\<close>) and the header
  \<open>ip_reassembler.h\<close> are not part of the source file. What the code needs of them is
  modelled as follows.
  \<^item> An inner PDU is modelled by its serialisation, a list of bytes; its \<open>size()\<close> is the
    length of that list.
  \<^item> An \<open>IP\<close> object is a header, of which the fields the code reads or writes are kept,
    and an inner PDU that may be absent (a null pointer).
  \<^item> The snapshot \<open>first_fragment_\<close> is an \<open>IP\<close> object that never owns an inner PDU:
    it starts as \<open>IP()\<close>, and \<open>add_fragment\<close> releases the inner PDU of the packet
    before it copies the packet. The snapshot is modelled by its header.
  \<^item> Timestamps are \<open>std::chrono::microseconds\<close>, a signed 64-bit count: a 64-bit word,
    read by \<open>sint\<close>. The difference of two timestamps is a 64-bit subtraction, which
    wraps around.
  \<^item> \<open>received_size_\<close> and the loop variable \<open>expected\<close> are \<open>size_t\<close>. They add up one
    payload size, a \<open>uint32_t\<close>, for each of the at most 8192 offsets a store can hold,
    which 64 bits hold, and are modelled as natural numbers. The 32-bit sum that computes
    \<open>total_size_\<close> and the 32-bit cast of the buffer size are written out.
\<close>

type_synonym byte = "8 word"
type_synonym payload = "byte list"
type_synonym IPv4Address = "32 word"
type_synonym microseconds = "64 word"

record ip_header =
  ip_id :: "16 word"
  src_addr :: IPv4Address
  dst_addr :: IPv4Address
  fragment_offset :: "13 word"
  flags :: "3 word"
  protocol :: "8 word"

record IP =
  hdr :: ip_header
  inner_pdu :: "payload option"

text \<open>\<open>IP::MORE_FRAGMENTS\<close>, the lowest of the three flag bits.\<close>

definition MORE_FRAGMENTS :: "3 word" where
  "MORE_FRAGMENTS = 1"

text \<open>Modelled from the spec: the copy assignment of \<open>IP\<close> belongs to the packet
  library. The snapshot is "a copy of the IP header fields [...] captured without its
  payload", and the packet is rewritten "to use \<open>header_snapshot\<close>'s field values" (the
  code: "Use all field values from the first fragment"). Assigning the snapshot, which owns
  no inner PDU, overwrites the header fields of the target and leaves its inner PDU in
  place: the copy assignment of the library's \<open>PDU\<close> clones the inner PDU of its source
  when there is one, and does not touch the inner PDU of the target otherwise.\<close>

definition assign_snapshot :: "IP \<Rightarrow> ip_header \<Rightarrow> IP" where
  "assign_snapshot ip snapshot = ip\<lparr>hdr := snapshot\<rparr>"

text \<open>Modelled from the spec: \<open>IP::is_fragmented\<close>; a packet is not fragmented when its
  "more-fragments flag [is] clear AND offset zero".\<close>

definition is_fragmented :: "IP \<Rightarrow> bool" where
  "is_fragmented ip \<longleftrightarrow>
     (flags (hdr ip) AND MORE_FRAGMENTS) \<noteq> 0 \<or> fragment_offset (hdr ip) \<noteq> 0"

record IPv4Fragment2 =
  payload :: payload
  offset :: "16 word"

record IPv4Stream2 =
  fragments :: "IPv4Fragment2 list"
  received_size :: nat
  total_size :: nat
  first_fragment :: ip_header
  received_end :: bool
  last_timestamp :: microseconds

definition fragment_timeout :: microseconds where
  "fragment_timeout = 2000000"

text \<open>The constructor. The header \<open>d\<close> of a default-constructed \<open>IP()\<close> is a parameter
  of the model. \<open>last_timestamp_\<close> is not initialised by the constructor; it is written
  by \<open>add_fragment\<close> before anything reads it, and is 0 here.\<close>

definition IPv4Stream2_init :: "ip_header \<Rightarrow> IPv4Stream2" where
  "IPv4Stream2_init d =
     \<lparr>fragments = [], received_size = 0, total_size = 0, first_fragment = d,
      received_end = False, last_timestamp = 0\<rparr>"

section \<open>The fragment store\<close>

text \<open>\<open>extract_offset\<close>: the 13-bit field times 8, as a \<open>uint16_t\<close>.\<close>

definition extract_offset :: "IP \<Rightarrow> 16 word" where
  "extract_offset ip = ucast (fragment_offset (hdr ip)) * 8"

text \<open>The scan \<open>while (it != end && offset > it->offset()) ++it\<close>; the result is the
  index of \<open>it\<close>, the length of the list standing for \<open>end()\<close>.\<close>

fun scan :: "16 word \<Rightarrow> IPv4Fragment2 list \<Rightarrow> nat" where
  "scan off [] = 0"
| "scan off (f # fs) = (if off > offset f then Suc (scan off fs) else 0)"

text \<open>\<open>vector::erase\<close> and \<open>vector::insert\<close> at an index.\<close>

definition erase_at :: "nat \<Rightarrow> 'a list \<Rightarrow> 'a list" where
  "erase_at i xs = take i xs @ drop (Suc i) xs"

definition insert_at :: "nat \<Rightarrow> 'a \<Rightarrow> 'a list \<Rightarrow> 'a list" where
  "insert_at i x xs = take i xs @ x # drop i xs"

text \<open>The timeout branch at the head of \<open>add_fragment\<close>.\<close>

definition handle_timeout :: "ip_header \<Rightarrow> microseconds \<Rightarrow> IPv4Stream2 \<Rightarrow> IPv4Stream2" where
  "handle_timeout d timestamp s =
     (if fragments s \<noteq> [] \<and> sint (timestamp - last_timestamp s) > sint fragment_timeout
      then s\<lparr>received_size := 0, total_size := 0, received_end := False,
              fragments := [], first_fragment := d\<rparr>
      else s)"

text \<open>The scan and the replace-or-insert step, for a fragment with payload \<open>p\<close>.\<close>

definition store_fragment :: "16 word \<Rightarrow> payload \<Rightarrow> IPv4Stream2 \<Rightarrow> IPv4Stream2" where
  "store_fragment off p s =
     (let fs = fragments s;
          it = scan off fs;
          new = \<lparr>payload = p, offset = off\<rparr>
      in if it < length fs \<and> offset (fs ! it) = off
         then s\<lparr>fragments := insert_at it new (erase_at it fs)\<rparr>
         else s\<lparr>fragments := insert_at it new fs,
                 received_size := received_size s + length p\<rparr>)"

text \<open>\<open>add_fragment\<close>. A packet without inner PDU makes the code dereference a null
  pointer: the result is \<open>None\<close>. The sum \<open>offset + size()\<close> is a 32-bit unsigned sum.\<close>

definition add_fragment ::
  "ip_header \<Rightarrow> microseconds \<Rightarrow> IP \<Rightarrow> IPv4Stream2 \<Rightarrow> IPv4Stream2 option" where
  "add_fragment d timestamp ip s =
     (case inner_pdu ip of
        None \<Rightarrow> None
      | Some p \<Rightarrow>
          let s1 = (handle_timeout d timestamp s)\<lparr>last_timestamp := timestamp\<rparr>;
              off = extract_offset ip;
              s2 = store_fragment off p s1;
              s3 = (if (flags (hdr ip) AND MORE_FRAGMENTS) = 0
                    then s2\<lparr>total_size := (unat off + length p) mod 2 ^ 32,
                            received_end := True\<rparr>
                    else s2);
              s4 = (if off = 0 then s3\<lparr>first_fragment := hdr ip\<rparr> else s3)
          in Some s4)"

text \<open>\<open>is_complete\<close>. Reading \<open>fragments_.begin()\<close> of an empty vector is undefined:
  the result is \<open>None\<close> there.\<close>

definition is_complete :: "IPv4Stream2 \<Rightarrow> bool option" where
  "is_complete s =
     (if \<not> received_end s \<or> received_size s \<noteq> total_size s then Some False
      else case fragments s of
             [] \<Rightarrow> None
           | f # _ \<Rightarrow> Some (offset f = 0))"

text \<open>The loop of \<open>allocate_pdu\<close>: \<open>None\<close> is the early \<open>return 0\<close>.\<close>

fun stitch :: "IPv4Fragment2 list \<Rightarrow> nat \<Rightarrow> payload \<Rightarrow> payload option" where
  "stitch [] expected buffer = Some buffer"
| "stitch (f # fs) expected buffer =
     (if expected \<noteq> unat (offset f) then None
      else stitch fs (unat (offset f) + length (payload f)) (buffer @ payload f))"

text \<open>\<open>allocate_pdu\<close>. The builder \<open>pdu_from_flag\<close> of the packet library is the
  parameter \<open>bld\<close>; it is given the protocol of the first fragment and the first
  \<open>static_cast<uint32_t>(buffer.size())\<close> bytes of the buffer.\<close>

definition allocate_pdu ::
  "(8 word \<Rightarrow> payload \<Rightarrow> payload option) \<Rightarrow> IPv4Stream2 \<Rightarrow> payload option" where
  "allocate_pdu bld s =
     (case stitch (fragments s) 0 [] of
        None \<Rightarrow> None
      | Some buffer \<Rightarrow>
          bld (protocol (first_fragment s))
              (take (length buffer mod 2 ^ 32) buffer))"

text \<open>A run of \<open>add_fragment\<close> calls, each with its timestamp, on one store.\<close>

fun absorb_all ::
  "ip_header \<Rightarrow> (microseconds \<times> IP) list \<Rightarrow> IPv4Stream2 \<Rightarrow> IPv4Stream2 option" where
  "absorb_all d [] s = Some s"
| "absorb_all d ((timestamp, ip) # xs) s =
     (case add_fragment d timestamp ip s of
        None \<Rightarrow> None
      | Some s' \<Rightarrow> absorb_all d xs s')"

section \<open>The reassembly table\<close>

type_synonym address_pair = "IPv4Address \<times> IPv4Address"
type_synonym key_type = "16 word \<times> address_pair"

datatype OverlappingTechnique = NONE

datatype PacketStatus = NOT_FRAGMENTED | FRAGMENTED | REASSEMBLED

record IPv4Reassembler2 =
  streams :: "key_type \<rightharpoonup> IPv4Stream2"
  technique :: OverlappingTechnique

definition IPv4Reassembler2_init :: IPv4Reassembler2 where
  "IPv4Reassembler2_init = \<lparr>streams = Map.empty, technique = NONE\<rparr>"

definition make_address_pair :: "IPv4Address \<Rightarrow> IPv4Address \<Rightarrow> address_pair" where
  "make_address_pair addr1 addr2 = (if addr1 < addr2 then (addr1, addr2) else (addr2, addr1))"

definition make_key :: "IP \<Rightarrow> key_type" where
  "make_key ip = (ip_id (hdr ip), make_address_pair (src_addr (hdr ip)) (dst_addr (hdr ip)))"

text \<open>The sweep: the loop visits every entry once and erases it when its age exceeds
  the timeout. What happens to an entry depends on that entry alone, so the table after the
  loop is given entry by entry.\<close>

definition sweep ::
  "microseconds \<Rightarrow> (key_type \<rightharpoonup> IPv4Stream2) \<Rightarrow> (key_type \<rightharpoonup> IPv4Stream2)" where
  "sweep timestamp m =
     (\<lambda>k. case m k of
            None \<Rightarrow> None
          | Some s \<Rightarrow>
              if sint (timestamp - last_timestamp s) > sint fragment_timeout then None
              else Some s)"

text \<open>The table after the size check and the sweep it may trigger.\<close>

definition swept :: "microseconds \<Rightarrow> (key_type \<rightharpoonup> IPv4Stream2) \<Rightarrow> (key_type \<rightharpoonup> IPv4Stream2)" where
  "swept timestamp m = (if card (dom m) > 100 then sweep timestamp m else m)"

text \<open>\<open>streams_[key]\<close>: the entry of the key, created by the constructor when absent.\<close>

definition lookup_or_create ::
  "ip_header \<Rightarrow> (key_type \<rightharpoonup> IPv4Stream2) \<Rightarrow> key_type \<Rightarrow> IPv4Stream2" where
  "lookup_or_create d m key = (case m key of None \<Rightarrow> IPv4Stream2_init d | Some s \<Rightarrow> s)"

text \<open>\<open>process\<close>. The packet is given by its IP layer, \<open>None\<close> when \<open>find_pdu<IP>()\<close>
  finds none; the result is the status, the packet and the reassembler after the call.\<close>

definition process ::
  "ip_header \<Rightarrow> (8 word \<Rightarrow> payload \<Rightarrow> payload option) \<Rightarrow> microseconds \<Rightarrow> IP option \<Rightarrow>
   IPv4Reassembler2 \<Rightarrow> (PacketStatus \<times> IP option \<times> IPv4Reassembler2) option" where
  "process d bld timestamp pdu r =
     (case pdu of
        None \<Rightarrow> Some (NOT_FRAGMENTED, pdu, r)
      | Some ip \<Rightarrow>
          if inner_pdu ip \<noteq> None \<and> is_fragmented ip then
            let key = make_key ip;
                m1 = swept timestamp (streams r)
            in case add_fragment d timestamp ip (lookup_or_create d m1 key) of
                 None \<Rightarrow> None
               | Some stream \<Rightarrow>
                   let m2 = m1(key \<mapsto> stream)
                   in case is_complete stream of
                        None \<Rightarrow> None
                      | Some False \<Rightarrow> Some (FRAGMENTED, Some ip, r\<lparr>streams := m2\<rparr>)
                      | Some True \<Rightarrow>
                          let pdu' = allocate_pdu bld stream;
                              ip1 = assign_snapshot ip (first_fragment stream);
                              m3 = m2(key := None)
                          in case pdu' of
                               None \<Rightarrow> Some (FRAGMENTED, Some ip1, r\<lparr>streams := m3\<rparr>)
                             | Some p \<Rightarrow>
                                 Some (REASSEMBLED,
                                       Some (ip1\<lparr>inner_pdu := Some p,
                                                 hdr := (hdr ip1)\<lparr>fragment_offset := 0,
                                                                   flags := 0\<rparr>\<rparr>),
                                       r\<lparr>streams := m3\<rparr>)
          else Some (NOT_FRAGMENTED, pdu, r))"

section \<open>Vocabulary of the properties\<close>

text \<open>The bytes a packet contributes, and the fragment \<open>IPv4Fragment2(ip->inner_pdu(),
  offset)\<close> the store builds from it.\<close>

definition pdu_bytes :: "IP \<Rightarrow> payload" where
  "pdu_bytes ip = (case inner_pdu ip of None \<Rightarrow> [] | Some p \<Rightarrow> p)"

definition fragment_of :: "IP \<Rightarrow> IPv4Fragment2" where
  "fragment_of ip = \<lparr>payload = pdu_bytes ip, offset = extract_offset ip\<rparr>"

definition datagram_size :: "IP list \<Rightarrow> nat" where
  "datagram_size ps = sum_list (map (\<lambda>ip. length (pdu_bytes ip)) ps)"

text \<open>A datagram cut into fragments, listed from the first to the last: every fragment
  starts where the one before it ends, the first at 0; the offsets are distinct; only the
  last fragment has the more-fragments flag clear.\<close>

fun contiguous_from :: "nat \<Rightarrow> IP list \<Rightarrow> bool" where
  "contiguous_from e [] \<longleftrightarrow> True"
| "contiguous_from e (ip # ips) \<longleftrightarrow>
     unat (extract_offset ip) = e \<and> contiguous_from (e + length (pdu_bytes ip)) ips"

definition valid_datagram :: "IP list \<Rightarrow> bool" where
  "valid_datagram frs \<longleftrightarrow>
     frs \<noteq> [] \<and>
     list_all (\<lambda>ip. inner_pdu ip \<noteq> None) frs \<and>
     distinct (map extract_offset frs) \<and>
     contiguous_from 0 frs \<and>
     list_all (\<lambda>ip. (flags (hdr ip) AND MORE_FRAGMENTS) \<noteq> 0) (butlast frs) \<and>
     (flags (hdr (last frs)) AND MORE_FRAGMENTS) = 0"

text \<open>The number of microseconds from the timestamp \<open>t0\<close> to the timestamp \<open>t\<close>, and
  the numbers a signed 64-bit count can hold.\<close>

definition elapsed :: "microseconds \<Rightarrow> microseconds \<Rightarrow> int" where
  "elapsed t t0 = sint t - sint t0"

definition fits_int64 :: "int \<Rightarrow> bool" where
  "fits_int64 x \<longleftrightarrow> - (2 ^ 63) \<le> x \<and> x < 2 ^ 63"

text \<open>Timestamps of a run of calls none of which comes more than the timeout after the
  call before it, the time from each call to the next fitting in 64 bits.\<close>

fun no_timeout_after :: "microseconds \<Rightarrow> (microseconds \<times> IP) list \<Rightarrow> bool" where
  "no_timeout_after t [] \<longleftrightarrow> True"
| "no_timeout_after t ((t', ip) # xs) \<longleftrightarrow>
     fits_int64 (elapsed t' t) \<and> elapsed t' t \<le> 2000000 \<and> no_timeout_after t' xs"

definition no_timeout :: "(microseconds \<times> IP) list \<Rightarrow> bool" where
  "no_timeout xs = (case xs of [] \<Rightarrow> True | (t, ip) # ys \<Rightarrow> no_timeout_after t ys)"

text \<open>What a store holds after it has absorbed the packets \<open>ps\<close>, of which \<open>l\<close> is the
  one with the more-fragments flag clear and \<open>z\<close> the one at offset 0.\<close>

definition holds :: "IP \<Rightarrow> IP \<Rightarrow> IP list \<Rightarrow> IPv4Stream2 \<Rightarrow> bool" where
  "holds l z ps s \<longleftrightarrow>
     sorted_wrt (<) (map offset (fragments s)) \<and>
     set (fragments s) = fragment_of ` set ps \<and>
     received_size s = datagram_size ps \<and>
     (received_end s \<longleftrightarrow> l \<in> set ps) \<and>
     (l \<in> set ps \<longrightarrow>
        total_size s = (unat (extract_offset l) + length (pdu_bytes l)) mod 2 ^ 32) \<and>
     (z \<in> set ps \<longrightarrow> first_fragment s = hdr z)"

text \<open>The store of the packet's key after \<open>process\<close> has swept the table, looked the
  store up or created it, and let it absorb the fragment.\<close>

definition absorbed ::
  "ip_header \<Rightarrow> microseconds \<Rightarrow> IP \<Rightarrow> IPv4Reassembler2 \<Rightarrow> IPv4Stream2 option" where
  "absorbed d timestamp ip r =
     add_fragment d timestamp ip
       (lookup_or_create d (swept timestamp (streams r)) (make_key ip))"

section \<open>Example packets and tables\<close>

text \<open>The header of \<open>IP()\<close> in the examples, and a builder that accepts every buffer.\<close>

definition example_default :: ip_header where
  "example_default =
     \<lparr>ip_id = 1, src_addr = 0, dst_addr = 0, fragment_offset = 0, flags = 0, protocol = 0\<rparr>"

definition raw_builder :: "8 word \<Rightarrow> payload \<Rightarrow> payload option" where
  "raw_builder proto bytes = Some bytes"

text \<open>Fragments of one datagram: identifier 7, from address 1 to address 2, protocol 17.
  \<open>fragment_A\<close>, \<open>fragment_B\<close> and \<open>fragment_C\<close> are the three fragments at offsets 0, 8
  and 16 with payloads \<open>AAAAAAAA\<close>, \<open>BBBBBBBB\<close> and \<open>CC\<close>, the last one terminal.\<close>

definition example_header :: "13 word \<Rightarrow> 3 word \<Rightarrow> ip_header" where
  "example_header fo fl =
     \<lparr>ip_id = 7, src_addr = 1, dst_addr = 2, fragment_offset = fo, flags = fl, protocol = 17\<rparr>"

definition fragment_A :: IP where
  "fragment_A = \<lparr>hdr = example_header 0 1, inner_pdu = Some [65, 65, 65, 65, 65, 65, 65, 65]\<rparr>"

definition fragment_B :: IP where
  "fragment_B = \<lparr>hdr = example_header 1 1, inner_pdu = Some [66, 66, 66, 66, 66, 66, 66, 66]\<rparr>"

definition fragment_C :: IP where
  "fragment_C = \<lparr>hdr = example_header 2 0, inner_pdu = Some [67, 67]\<rparr>"

text \<open>A second fragment at offset 0, twice as long as \<open>fragment_A\<close>.\<close>

definition fragment_A_long :: IP where
  "fragment_A_long =
     \<lparr>hdr = example_header 0 1,
      inner_pdu = Some [68, 68, 68, 68, 68, 68, 68, 68, 68, 68, 68, 68, 68, 68, 68, 68]\<rparr>"

text \<open>A fragment at offset 24 and a terminal fragment at offset 16, of 8 bytes each.
  With \<open>fragment_A\<close> they make a store whose sizes agree (24 bytes received, 24 bytes in
  total) although the bytes from 8 to 16 are missing.\<close>

definition fragment_far :: IP where
  "fragment_far = \<lparr>hdr = example_header 3 1, inner_pdu = Some [69, 69, 69, 69, 69, 69, 69, 69]\<rparr>"

definition fragment_end :: IP where
  "fragment_end = \<lparr>hdr = example_header 2 0, inner_pdu = Some [70, 70, 70, 70, 70, 70, 70, 70]\<rparr>"

text \<open>The table after \<open>fragment_A\<close> at time 0 and \<open>fragment_far\<close> at time 1.\<close>

definition gap_store :: IPv4Stream2 where
  "gap_store =
     \<lparr>fragments = [\<lparr>payload = [65, 65, 65, 65, 65, 65, 65, 65], offset = 0\<rparr>,
                   \<lparr>payload = [69, 69, 69, 69, 69, 69, 69, 69], offset = 24\<rparr>],
      received_size = 16, total_size = 0, first_fragment = example_header 0 1,
      received_end = False, last_timestamp = 1\<rparr>"

definition gap_table :: IPv4Reassembler2 where
  "gap_table = \<lparr>streams = [(7, (1, 2)) \<mapsto> gap_store], technique = NONE\<rparr>"

text \<open>A store last touched at time 0, and a table of 101 stores, for the identifiers 0
  to 100, the store of identifier \<open>i\<close> last touched at time \<open>30000 * i\<close>.\<close>

definition old_store :: IPv4Stream2 where
  "old_store =
     \<lparr>fragments = [\<lparr>payload = [65, 65, 65, 65, 65, 65, 65, 65], offset = 0\<rparr>],
      received_size = 8, total_size = 0, first_fragment = example_header 0 1,
      received_end = False, last_timestamp = 0\<rparr>"

definition crowded_table :: IPv4Reassembler2 where
  "crowded_table =
     \<lparr>streams =
        map_of (map (\<lambda>i. ((of_nat i, (1, 2)), old_store\<lparr>last_timestamp := 30000 * of_nat i\<rparr>))
                  [0..<101]),
      technique = NONE\<rparr>"

section \<open>Facts about the replace-or-insert step\<close>

lemma fragments_store_Nil:
  "fragments s = [] \<Longrightarrow> fragments (store_fragment off p s) = [\<lparr>payload = p, offset = off\<rparr>]"
  by (simp add: store_fragment_def insert_at_def)

lemma fragments_store_Cons:
  "fragments s = f # fs \<Longrightarrow>
   fragments (store_fragment off p s) =
     (if off > offset f then f # fragments (store_fragment off p (s\<lparr>fragments := fs\<rparr>))
      else if offset f = off then \<lparr>payload = p, offset = off\<rparr> # fs
      else \<lparr>payload = p, offset = off\<rparr> # f # fs)"
  by (simp add: store_fragment_def insert_at_def erase_at_def Let_def)

lemma received_size_store_Nil:
  "fragments s = [] \<Longrightarrow> received_size (store_fragment off p s) = received_size s + length p"
  by (simp add: store_fragment_def)

lemma received_size_store_Cons:
  "fragments s = f # fs \<Longrightarrow>
   received_size (store_fragment off p s) =
     (if off > offset f then received_size (store_fragment off p (s\<lparr>fragments := fs\<rparr>))
      else if offset f = off then received_size s
      else received_size s + length p)"
  by (simp add: store_fragment_def insert_at_def erase_at_def Let_def)

lemma store_fragment_frame:
  "total_size (store_fragment off p s) = total_size s"
  "received_end (store_fragment off p s) = received_end s"
  "first_fragment (store_fragment off p s) = first_fragment s"
  "last_timestamp (store_fragment off p s) = last_timestamp s"
  by (simp_all add: store_fragment_def Let_def)

lemma store_offsets_list:
  "offset ` set (fragments (store_fragment off p (s\<lparr>fragments := fs\<rparr>))) =
   insert off (offset ` set fs)"
proof (induction fs)
  case Nil
  show ?case by (simp add: fragments_store_Nil)
next
  case (Cons f fs)
  show ?case
    using Cons.IH by (auto simp add: fragments_store_Cons)
qed

lemma store_sorted_list:
  "sorted_wrt (<) (map offset fs) \<Longrightarrow>
   sorted_wrt (<) (map offset (fragments (store_fragment off p (s\<lparr>fragments := fs\<rparr>))))"
proof (induction fs)
  case Nil
  show ?case by (simp add: fragments_store_Nil)
next
  case (Cons f fs)
  have tl: "sorted_wrt (<) (map offset fs)" and hd: "\<forall>g\<in>set fs. offset f < offset g"
    using Cons.prems by auto
  show ?case
  proof (cases "offset f < off")
    case True
    have "\<forall>x\<in>offset ` set (fragments (store_fragment off p (s\<lparr>fragments := fs\<rparr>))). offset f < x"
      unfolding store_offsets_list using hd True by auto
    then show ?thesis
      using True Cons.IH [OF tl] by (simp add: fragments_store_Cons)
  next
    case False
    then show ?thesis
      using Cons.prems by (auto simp add: fragments_store_Cons)
  qed
qed

lemma store_set_list:
  "sorted_wrt (<) (map offset fs) \<Longrightarrow>
   set (fragments (store_fragment off p (s\<lparr>fragments := fs\<rparr>))) =
   insert \<lparr>payload = p, offset = off\<rparr> {f \<in> set fs. offset f \<noteq> off}"
proof (induction fs)
  case Nil
  show ?case by (simp add: fragments_store_Nil)
next
  case (Cons f fs)
  have tl: "sorted_wrt (<) (map offset fs)" and hd: "\<forall>g\<in>set fs. offset f < offset g"
    using Cons.prems by auto
  show ?case
  proof (cases "offset f < off")
    case True
    then show ?thesis
      using Cons.IH [OF tl] by (auto simp add: fragments_store_Cons)
  next
    case False
    have "\<forall>g\<in>set fs. offset g \<noteq> off"
      using hd False by auto
    then have "{g \<in> set fs. offset g \<noteq> off} = set fs"
      by auto
    then show ?thesis
      using False by (auto simp add: fragments_store_Cons)
  qed
qed

lemma store_received_size_list:
  "off \<notin> offset ` set fs \<Longrightarrow>
   received_size (store_fragment off p (s\<lparr>fragments := fs\<rparr>)) = received_size s + length p"
proof (induction fs)
  case Nil
  show ?case by (simp add: received_size_store_Nil)
next
  case (Cons f fs)
  then show ?case by (auto simp add: received_size_store_Cons)
qed

lemma store_nonempty: "fragments (store_fragment off p s) \<noteq> []"
  by (cases "fragments s") (simp_all add: fragments_store_Nil fragments_store_Cons)

lemma store_offsets:
  "offset ` set (fragments (store_fragment off p s)) = insert off (offset ` set (fragments s))"
  using store_offsets_list [where s = s and fs = "fragments s"] by simp

lemma store_sorted:
  "sorted_wrt (<) (map offset (fragments s)) \<Longrightarrow>
   sorted_wrt (<) (map offset (fragments (store_fragment off p s)))"
  using store_sorted_list [where s = s and fs = "fragments s"] by simp

lemma store_set:
  "sorted_wrt (<) (map offset (fragments s)) \<Longrightarrow>
   set (fragments (store_fragment off p s)) =
   insert \<lparr>payload = p, offset = off\<rparr> {f \<in> set (fragments s). offset f \<noteq> off}"
  using store_set_list [where s = s and fs = "fragments s"] by simp

lemma store_received_size:
  "off \<notin> offset ` set (fragments s) \<Longrightarrow>
   received_size (store_fragment off p s) = received_size s + length p"
  using store_received_size_list [where s = s and fs = "fragments s"] by simp

section \<open>Facts about \<open>add_fragment\<close>\<close>

lemma handle_timeout_cases:
  "handle_timeout d t s = s \<or>
   handle_timeout d t s =
     s\<lparr>received_size := 0, total_size := 0, received_end := False, fragments := [],
       first_fragment := d\<rparr>"
  by (simp add: handle_timeout_def)

lemma sint_elapsed:
  "fits_int64 (elapsed t t0) \<Longrightarrow> sint (t - t0) = elapsed t t0"
  by (simp add: fits_int64_def elapsed_def sint_word_ariths signed_take_bit_int_eq_self)

lemma sint_fragment_timeout: "sint fragment_timeout = 2000000"
  by (simp add: fragment_timeout_def)

lemma handle_timeout_keep:
  "fragments s = [] \<or> sint (t - last_timestamp s) \<le> 2000000 \<Longrightarrow> handle_timeout d t s = s"
  by (auto simp add: handle_timeout_def sint_fragment_timeout)

lemma handle_timeout_sorted:
  "sorted_wrt (<) (map offset (fragments s)) \<Longrightarrow>
   sorted_wrt (<) (map offset (fragments (handle_timeout d t s)))"
  by (simp add: handle_timeout_def)

lemma handle_timeout_end:
  "received_end s \<longrightarrow> fragments s \<noteq> [] \<Longrightarrow>
   received_end (handle_timeout d t s) \<longrightarrow> fragments (handle_timeout d t s) \<noteq> []"
  by (simp add: handle_timeout_def)

lemma store_last_timestamp_update:
  "fragments (store_fragment off p (s\<lparr>last_timestamp := t\<rparr>)) = fragments (store_fragment off p s)"
  "received_size (store_fragment off p (s\<lparr>last_timestamp := t\<rparr>)) =
   received_size (store_fragment off p s)"
  by (simp_all add: store_fragment_def Let_def)

lemma add_fragment_None: "inner_pdu ip = None \<Longrightarrow> add_fragment d t ip s = None"
  by (simp add: add_fragment_def)

lemma add_fragment_Some:
  assumes "inner_pdu ip = Some p"
  shows "\<exists>s'. add_fragment d t ip s = Some s' \<and>
     fragments s' = fragments (store_fragment (extract_offset ip) p (handle_timeout d t s)) \<and>
     received_size s' = received_size (store_fragment (extract_offset ip) p (handle_timeout d t s)) \<and>
     total_size s' = (if (flags (hdr ip) AND MORE_FRAGMENTS) = 0
                      then (unat (extract_offset ip) + length p) mod 2 ^ 32
                      else total_size (handle_timeout d t s)) \<and>
     received_end s' = ((flags (hdr ip) AND MORE_FRAGMENTS) = 0 \<or> received_end (handle_timeout d t s)) \<and>
     first_fragment s' = (if extract_offset ip = 0 then hdr ip
                          else first_fragment (handle_timeout d t s)) \<and>
     last_timestamp s' = t"
  using assms
  by (simp add: add_fragment_def Let_def store_fragment_frame store_last_timestamp_update)

lemma add_fragment_sorted:
  assumes "sorted_wrt (<) (map offset (fragments s))" and "add_fragment d t ip s = Some s'"
  shows "sorted_wrt (<) (map offset (fragments s'))"
proof -
  obtain p where p: "inner_pdu ip = Some p"
    using assms(2) by (cases "inner_pdu ip") (simp_all add: add_fragment_None)
  from add_fragment_Some [OF p, of d t s] assms(2)
  have "fragments s' = fragments (store_fragment (extract_offset ip) p (handle_timeout d t s))"
    by auto
  then show ?thesis
    using assms(1) by (simp add: store_sorted handle_timeout_sorted)
qed

lemma add_fragment_nonempty:
  assumes "add_fragment d t ip s = Some s'"
  shows "fragments s' \<noteq> []"
proof -
  obtain p where p: "inner_pdu ip = Some p"
    using assms by (cases "inner_pdu ip") (simp_all add: add_fragment_None)
  from add_fragment_Some [OF p, of d t s] assms
  have "fragments s' = fragments (store_fragment (extract_offset ip) p (handle_timeout d t s))"
    by auto
  then show ?thesis
    by (simp add: store_nonempty)
qed

lemma absorb_all_sorted:
  "sorted_wrt (<) (map offset (fragments s)) \<Longrightarrow> absorb_all d xs s = Some s' \<Longrightarrow>
   sorted_wrt (<) (map offset (fragments s'))"
proof (induction xs arbitrary: s)
  case Nil
  then show ?case by simp
next
  case (Cons x xs)
  obtain t ip where x: "x = (t, ip)" by (cases x)
  from Cons.prems(2) obtain s1 where s1: "add_fragment d t ip s = Some s1"
    and rest: "absorb_all d xs s1 = Some s'"
    by (auto simp add: x split: option.splits)
  show ?case
    using Cons.IH [OF add_fragment_sorted [OF Cons.prems(1) s1] rest] .
qed

lemma absorb_all_end_nonempty:
  "received_end s \<longrightarrow> fragments s \<noteq> [] \<Longrightarrow> absorb_all d xs s = Some s' \<Longrightarrow>
   received_end s' \<longrightarrow> fragments s' \<noteq> []"
proof (induction xs arbitrary: s)
  case Nil
  then show ?case by simp
next
  case (Cons x xs)
  obtain t ip where x: "x = (t, ip)" by (cases x)
  from Cons.prems(2) obtain s1 where s1: "add_fragment d t ip s = Some s1"
    and rest: "absorb_all d xs s1 = Some s'"
    by (auto simp add: x split: option.splits)
  have "received_end s1 \<longrightarrow> fragments s1 \<noteq> []"
    using add_fragment_nonempty [OF s1] by simp
  then show ?case
    using Cons.IH rest by blast
qed

lemma is_complete_sorted:
  assumes "sorted_wrt (<) (map offset (fragments s))"
      and "received_end s \<longrightarrow> fragments s \<noteq> []"
  shows "is_complete s =
     Some (received_end s \<and> received_size s = total_size s \<and>
           (\<exists>f\<in>set (fragments s). offset f = 0 \<and> (\<forall>g\<in>set (fragments s). offset f \<le> offset g)))"
proof (cases "received_end s \<and> received_size s = total_size s")
  case False
  then show ?thesis by (auto simp add: is_complete_def)
next
  case True
  then obtain f fs where fs: "fragments s = f # fs"
    using assms(2) by (cases "fragments s") auto
  have low: "\<forall>g\<in>set fs. offset f < offset g"
    using assms(1) by (simp add: fs)
  have "offset f = 0 \<longleftrightarrow>
        (\<exists>f'\<in>set (f # fs). offset f' = 0 \<and> (\<forall>g\<in>set (f # fs). offset f' \<le> offset g))"
  proof
    assume "offset f = 0"
    then show "\<exists>f'\<in>set (f # fs). offset f' = 0 \<and> (\<forall>g\<in>set (f # fs). offset f' \<le> offset g)"
      by auto
  next
    assume "\<exists>f'\<in>set (f # fs). offset f' = 0 \<and> (\<forall>g\<in>set (f # fs). offset f' \<le> offset g)"
    then obtain f' where "f' \<in> set (f # fs)" "offset f' = 0" by blast
    then show "offset f = 0"
      using low by (auto simp add: word_less_nat_alt)
  qed
  then show ?thesis
    using True by (simp add: is_complete_def fs)
qed

text \<open>Claim C8. The address pair is the same whichever address comes first, and so
  is the key of two packets that have the same identifier and each other's source and
  destination address.\<close>

theorem make_key_symmetric:
  "make_address_pair a b = make_address_pair b a \<and>
   make_key \<lparr>hdr = h\<lparr>src_addr := a, dst_addr := b\<rparr>, inner_pdu = q\<rparr> =
   make_key \<lparr>hdr = h\<lparr>src_addr := b, dst_addr := a\<rparr>, inner_pdu = q'\<rparr>"
  by (auto simp add: make_key_def make_address_pair_def)

text \<open>Claim C9. If the offsets of the fragments of a store are sorted in ascending
  order and distinct, then \<open>add_fragment\<close>, on a packet with an inner PDU, returns a
  store whose offsets are sorted in ascending order and distinct.\<close>

theorem add_fragment_keeps_order:
  assumes "sorted (map offset (fragments s))" and "distinct (map offset (fragments s))"
      and "inner_pdu ip = Some p"
  shows "\<exists>s'. add_fragment d t ip s = Some s' \<and>
           sorted (map offset (fragments s')) \<and> distinct (map offset (fragments s'))"
proof -
  obtain s' where s': "add_fragment d t ip s = Some s'"
    using add_fragment_Some [OF assms(3), of d t s] by blast
  have "sorted_wrt (<) (map offset (fragments s))"
    using assms(1,2) by (simp add: strict_sorted_iff)
  then have "sorted_wrt (<) (map offset (fragments s'))"
    using s' by (rule add_fragment_sorted)
  then show ?thesis
    using s' by (simp add: strict_sorted_iff)
qed

text \<open>Claim C2. For every store reached from a new store by \<open>add_fragment\<close> calls,
  \<open>is_complete\<close> returns a value, and this value is true if and only if the terminal
  fragment has been received, \<open>received_size\<close> equals \<open>total_size\<close>, and the fragment of
  lowest offset in the store has offset 0.\<close>

theorem is_complete_iff:
  assumes "absorb_all d xs (IPv4Stream2_init d) = Some s"
  shows "is_complete s =
     Some (received_end s \<and> received_size s = total_size s \<and>
           (\<exists>f\<in>set (fragments s). offset f = 0 \<and> (\<forall>g\<in>set (fragments s). offset f \<le> offset g)))"
proof -
  have "sorted_wrt (<) (map offset (fragments s))"
    using absorb_all_sorted [OF _ assms] by (simp add: IPv4Stream2_init_def)
  moreover have "received_end s \<longrightarrow> fragments s \<noteq> []"
    using absorb_all_end_nonempty [OF _ assms] by (simp add: IPv4Stream2_init_def)
  ultimately show ?thesis
    by (rule is_complete_sorted)
qed

lemma fragment_of_simps:
  "offset (fragment_of ip) = extract_offset ip" "payload (fragment_of ip) = pdu_bytes ip"
  by (simp_all add: fragment_of_def)

lemma holds_step:
  assumes h: "holds l z ps s"
      and p: "inner_pdu ip = Some p"
      and fresh: "extract_offset ip \<notin> extract_offset ` set ps"
      and last: "(flags (hdr ip) AND MORE_FRAGMENTS) = 0 \<longleftrightarrow> ip = l"
      and first: "extract_offset ip = 0 \<longleftrightarrow> ip = z"
      and time: "fragments s = [] \<or> sint (t - last_timestamp s) \<le> 2000000"
  shows "\<exists>s'. add_fragment d t ip s = Some s' \<and> holds l z (ps @ [ip]) s' \<and>
           last_timestamp s' = t \<and> fragments s' \<noteq> []"
proof -
  have keep: "handle_timeout d t s = s"
    using time by (rule handle_timeout_keep)
  obtain s' where s': "add_fragment d t ip s = Some s'"
    and fr: "fragments s' = fragments (store_fragment (extract_offset ip) p s)"
    and rs: "received_size s' = received_size (store_fragment (extract_offset ip) p s)"
    and ts: "total_size s' = (if (flags (hdr ip) AND MORE_FRAGMENTS) = 0
                      then (unat (extract_offset ip) + length p) mod 2 ^ 32
                      else total_size s)"
    and re: "received_end s' = ((flags (hdr ip) AND MORE_FRAGMENTS) = 0 \<or> received_end s)"
    and ff: "first_fragment s' = (if extract_offset ip = 0 then hdr ip else first_fragment s)"
    and lt: "last_timestamp s' = t"
    using add_fragment_Some [OF p, of d t s] unfolding keep by blast
  have srt: "sorted_wrt (<) (map offset (fragments s))"
    and st: "set (fragments s) = fragment_of ` set ps"
    and sz: "received_size s = datagram_size ps"
    and en: "received_end s \<longleftrightarrow> l \<in> set ps"
    and tot: "l \<in> set ps \<longrightarrow>
        total_size s = (unat (extract_offset l) + length (pdu_bytes l)) mod 2 ^ 32"
    and fst: "z \<in> set ps \<longrightarrow> first_fragment s = hdr z"
    using h by (simp_all add: holds_def)
  have bytes: "pdu_bytes ip = p"
    using p by (simp add: pdu_bytes_def)
  have offs: "offset ` set (fragments s) = extract_offset ` set ps"
    by (simp add: st image_image fragment_of_simps)
  have notin: "extract_offset ip \<notin> offset ` set (fragments s)"
    using fresh offs by simp
  then have same: "{f \<in> set (fragments s). offset f \<noteq> extract_offset ip} = set (fragments s)"
    by (auto simp add: image_iff)
  have 1: "sorted_wrt (<) (map offset (fragments s'))"
    unfolding fr using srt by (rule store_sorted)
  have 2: "set (fragments s') = fragment_of ` set (ps @ [ip])"
    unfolding fr store_set [OF srt] same
    by (simp add: st fragment_of_def bytes)
  have 3: "received_size s' = datagram_size (ps @ [ip])"
    unfolding rs store_received_size [OF notin]
    by (simp add: sz datagram_size_def bytes)
  have 4: "received_end s' \<longleftrightarrow> l \<in> set (ps @ [ip])"
    unfolding re using last en by auto
  have 5: "l \<in> set (ps @ [ip]) \<longrightarrow>
        total_size s' = (unat (extract_offset l) + length (pdu_bytes l)) mod 2 ^ 32"
    unfolding ts using last tot bytes by auto
  have 6: "z \<in> set (ps @ [ip]) \<longrightarrow> first_fragment s' = hdr z"
    unfolding ff using first fst by auto
  have 7: "fragments s' \<noteq> []"
    unfolding fr by (rule store_nonempty)
  show ?thesis
    using s' 1 2 3 4 5 6 7 lt unfolding holds_def by blast
qed

lemma holds_run:
  assumes "holds l z ps s"
      and "fragments s = [] \<longrightarrow> no_timeout xs"
      and "fragments s \<noteq> [] \<longrightarrow> no_timeout_after (last_timestamp s) xs"
      and "distinct (map extract_offset (ps @ map snd xs))"
      and "\<forall>x\<in>set xs. inner_pdu (snd x) \<noteq> None"
      and "\<forall>x\<in>set xs. (flags (hdr (snd x)) AND MORE_FRAGMENTS) = 0 \<longleftrightarrow> snd x = l"
      and "\<forall>x\<in>set xs. extract_offset (snd x) = 0 \<longleftrightarrow> snd x = z"
  shows "\<exists>s'. absorb_all d xs s = Some s' \<and> holds l z (ps @ map snd xs) s'"
  using assms
proof (induction xs arbitrary: ps s)
  case Nil
  then show ?case by simp
next
  case (Cons x xs)
  obtain t ip where x: "x = (t, ip)" by (cases x)
  obtain p where p: "inner_pdu ip = Some p"
    using Cons.prems(5) by (auto simp add: x)
  have fresh: "extract_offset ip \<notin> extract_offset ` set ps"
    using Cons.prems(4) by (auto simp add: x)
  have time: "fragments s = [] \<or> sint (t - last_timestamp s) \<le> 2000000"
    using Cons.prems(3) by (auto simp add: x sint_elapsed)
  have after: "no_timeout_after t xs"
    using Cons.prems(2,3) by (cases "fragments s = []") (auto simp add: x no_timeout_def)
  obtain s1 where s1: "add_fragment d t ip s = Some s1"
    and h1: "holds l z (ps @ [ip]) s1"
    and t1: "last_timestamp s1 = t" and n1: "fragments s1 \<noteq> []"
    using holds_step [OF Cons.prems(1) p fresh _ _ time, of d] Cons.prems(6,7)
    by (auto simp add: x)
  have "\<exists>s'. absorb_all d xs s1 = Some s' \<and> holds l z ((ps @ [ip]) @ map snd xs) s'"
  proof (rule Cons.IH [OF h1])
    show "fragments s1 = [] \<longrightarrow> no_timeout xs" using n1 by simp
    show "fragments s1 \<noteq> [] \<longrightarrow> no_timeout_after (last_timestamp s1) xs"
      using after t1 by simp
    show "distinct (map extract_offset ((ps @ [ip]) @ map snd xs))"
      using Cons.prems(4) by (simp add: x)
    show "\<forall>x\<in>set xs. inner_pdu (snd x) \<noteq> None" using Cons.prems(5) by simp
    show "\<forall>x\<in>set xs. (flags (hdr (snd x)) AND MORE_FRAGMENTS) = 0 \<longleftrightarrow> snd x = l"
      using Cons.prems(6) by simp
    show "\<forall>x\<in>set xs. extract_offset (snd x) = 0 \<longleftrightarrow> snd x = z"
      using Cons.prems(7) by simp
  qed
  then show ?case
    using s1 by (simp add: x)
qed

lemma contiguous_lower:
  "contiguous_from e frs \<Longrightarrow> \<forall>q\<in>set frs. e \<le> unat (extract_offset q)"
proof (induction frs arbitrary: e)
  case Nil
  show ?case by simp
next
  case (Cons ip ips)
  have "\<forall>q\<in>set ips. e + length (pdu_bytes ip) \<le> unat (extract_offset q)"
    using Cons.IH [of "e + length (pdu_bytes ip)"] Cons.prems by simp
  then show ?case
    using Cons.prems by auto
qed

lemma contiguous_sorted:
  "contiguous_from e frs \<Longrightarrow> sorted (map extract_offset frs)"
proof (induction frs arbitrary: e)
  case Nil
  show ?case by simp
next
  case (Cons ip ips)
  have "\<forall>q\<in>set ips. e + length (pdu_bytes ip) \<le> unat (extract_offset q)"
    using contiguous_lower [of "e + length (pdu_bytes ip)" ips] Cons.prems by simp
  then have "\<forall>q\<in>set ips. extract_offset ip \<le> extract_offset q"
    using Cons.prems by (auto simp add: word_le_nat_alt)
  then show ?case
    using Cons.IH [of "e + length (pdu_bytes ip)"] Cons.prems by simp
qed

lemma contiguous_last:
  "contiguous_from e frs \<Longrightarrow> frs \<noteq> [] \<Longrightarrow>
   unat (extract_offset (last frs)) + length (pdu_bytes (last frs)) = e + datagram_size frs"
proof (induction frs arbitrary: e)
  case Nil
  then show ?case by simp
next
  case (Cons ip ips)
  show ?case
  proof (cases "ips = []")
    case True
    then show ?thesis using Cons.prems by (simp add: datagram_size_def)
  next
    case False
    then show ?thesis
      using Cons.IH [of "e + length (pdu_bytes ip)"] Cons.prems
      by (simp add: datagram_size_def)
  qed
qed

lemma stitch_contiguous:
  "contiguous_from e frs \<Longrightarrow>
   stitch (map fragment_of frs) e buf = Some (buf @ concat (map pdu_bytes frs))"
  by (induction frs arbitrary: e buf) (simp_all add: fragment_of_simps)

lemma length_concat_bytes: "length (concat (map pdu_bytes frs)) = datagram_size frs"
  by (induction frs) (simp_all add: datagram_size_def)

lemma strictly_sorted_unique:
  fixes f :: "'a \<Rightarrow> 'b::linorder"
  assumes "sorted_wrt (<) (map f xs)" and "sorted_wrt (<) (map f ys)" and "set xs = set ys"
  shows "xs = ys"
proof -
  have "sorted (map f xs)" "distinct (map f xs)" "sorted (map f ys)" "distinct (map f ys)"
    using assms(1,2) by (simp_all add: strict_sorted_iff)
  moreover have "set (map f xs) = set (map f ys)"
    using assms(3) by simp
  ultimately have "map f xs = map f ys"
    by (rule sorted_distinct_set_unique)
  moreover have "inj_on f (set xs \<union> set ys)"
    using assms(1,3) by (simp add: strict_sorted_iff distinct_map)
  ultimately show ?thesis
    by (simp add: inj_on_map_eq_map)
qed

lemma datagram_size_mset: "mset ps = mset qs \<Longrightarrow> datagram_size ps = datagram_size qs"
proof -
  assume eq: "mset ps = mset qs"
  have "datagram_size ps = sum_mset (image_mset (\<lambda>ip. length (pdu_bytes ip)) (mset ps))"
    by (simp add: datagram_size_def sum_mset_sum_list [symmetric])
  also have "\<dots> = sum_mset (image_mset (\<lambda>ip. length (pdu_bytes ip)) (mset qs))"
    by (simp add: eq)
  also have "\<dots> = datagram_size qs"
    by (simp add: datagram_size_def sum_mset_sum_list [symmetric])
  finally show ?thesis .
qed

lemma holds_init: "holds l z [] (IPv4Stream2_init d)"
  by (simp add: holds_def IPv4Stream2_init_def datagram_size_def)

lemma valid_datagram_run:
  assumes valid: "valid_datagram frs"
      and perm: "mset (map snd xs) = mset frs"
      and time: "no_timeout xs"
      and size: "datagram_size frs < 2 ^ 32"
  shows "\<exists>s. absorb_all d xs (IPv4Stream2_init d) = Some s \<and>
           fragments s = map fragment_of frs \<and>
           is_complete s = Some True \<and>
           allocate_pdu bld s = bld (protocol (hdr (hd frs))) (concat (map pdu_bytes frs))"
proof -
  define l where "l = last frs"
  define z where "z = hd frs"
  have ne: "frs \<noteq> []" and inner: "\<forall>ip\<in>set frs. inner_pdu ip \<noteq> None"
    and dist: "distinct (map extract_offset frs)" and cont: "contiguous_from 0 frs"
    and more: "\<forall>ip\<in>set (butlast frs). (flags (hdr ip) AND MORE_FRAGMENTS) \<noteq> 0"
    and final: "(flags (hdr l) AND MORE_FRAGMENTS) = 0"
    using valid by (simp_all add: valid_datagram_def list_all_iff l_def)
  have sets: "set (map snd xs) = set frs"
    using perm by (rule mset_eq_setD)
  have frs: "frs = z # tl frs" "frs = butlast frs @ [l]"
    using ne by (simp_all add: z_def l_def)
  have z0: "extract_offset z = 0"
  proof -
    have "contiguous_from 0 (z # tl frs)" using cont frs(1) by simp
    then show ?thesis by (simp add: unat_eq_0)
  qed
  have inj: "inj_on extract_offset (set frs)"
    using dist by (simp add: distinct_map)
  have zin: "z \<in> set frs" and lin: "l \<in> set frs"
    using ne by (simp_all add: z_def l_def)
  have only_l: "\<forall>ip\<in>set frs. (flags (hdr ip) AND MORE_FRAGMENTS) = 0 \<longleftrightarrow> ip = l"
  proof
    fix ip assume "ip \<in> set frs"
    then have "ip \<in> set (butlast frs) \<or> ip = l"
      using frs(2) by (metis Un_iff empty_iff empty_set insert_iff list.simps(15) set_append)
    then show "(flags (hdr ip) AND MORE_FRAGMENTS) = 0 \<longleftrightarrow> ip = l"
      using more final by auto
  qed
  have only_z: "\<forall>ip\<in>set frs. extract_offset ip = 0 \<longleftrightarrow> ip = z"
    using inj zin z0 by (metis inj_onD)
  have "mset (map extract_offset (map snd xs)) = mset (map extract_offset frs)"
    using perm by (metis mset_map)
  then have "distinct (map extract_offset (map snd xs)) \<longleftrightarrow> distinct (map extract_offset frs)"
    by (rule mset_eq_imp_distinct_iff)
  then have dist': "distinct (map extract_offset ([] @ map snd xs))"
    using dist by simp
  obtain s where run: "absorb_all d xs (IPv4Stream2_init d) = Some s"
    and h: "holds l z ([] @ map snd xs) s"
  proof -
    have "\<exists>s'. absorb_all d xs (IPv4Stream2_init d) = Some s' \<and> holds l z ([] @ map snd xs) s'"
    proof (rule holds_run [OF holds_init _ _ dist'])
      show "fragments (IPv4Stream2_init d) = [] \<longrightarrow> no_timeout xs"
        using time by simp
      show "fragments (IPv4Stream2_init d) \<noteq> [] \<longrightarrow>
            no_timeout_after (last_timestamp (IPv4Stream2_init d)) xs"
        by (simp add: IPv4Stream2_init_def)
      show "\<forall>x\<in>set xs. inner_pdu (snd x) \<noteq> None"
        using inner sets by auto
      show "\<forall>x\<in>set xs. (flags (hdr (snd x)) AND MORE_FRAGMENTS) = 0 \<longleftrightarrow> snd x = l"
        using only_l sets by auto
      show "\<forall>x\<in>set xs. extract_offset (snd x) = 0 \<longleftrightarrow> snd x = z"
        using only_z sets by auto
    qed
    then show ?thesis using that by blast
  qed
  have srt: "sorted_wrt (<) (map offset (fragments s))"
    and st: "set (fragments s) = fragment_of ` set frs"
    and sz: "received_size s = datagram_size (map snd xs)"
    and en: "received_end s"
    and tot: "total_size s = (unat (extract_offset l) + length (pdu_bytes l)) mod 2 ^ 32"
    and ff: "first_fragment s = hdr z"
    using h sets zin lin by (simp_all add: holds_def)
  have "sorted_wrt (<) (map extract_offset frs)"
    using contiguous_sorted [OF cont] dist by (simp add: strict_sorted_iff)
  then have "sorted_wrt (<) (map offset (map fragment_of frs))"
    by (simp add: comp_def fragment_of_simps)
  then have frags: "fragments s = map fragment_of frs"
    using srt st by (intro strictly_sorted_unique [of offset]) simp_all
  have "unat (extract_offset l) + length (pdu_bytes l) = datagram_size frs"
    using contiguous_last [OF cont ne] by (simp add: l_def)
  then have tot': "total_size s = datagram_size frs"
    using tot size by simp
  have sz': "received_size s = datagram_size frs"
    using sz datagram_size_mset [OF perm] by simp
  have "fragments s = fragment_of z # map fragment_of (tl frs)"
    using frags frs(1) by (metis list.simps(9))
  then have complete: "is_complete s = Some True"
    using en tot' sz' z0 by (simp add: is_complete_def fragment_of_simps)
  have "stitch (fragments s) 0 [] = Some (concat (map pdu_bytes frs))"
    unfolding frags using stitch_contiguous [OF cont, of "[]"] by simp
  then have "allocate_pdu bld s = bld (protocol (hdr z)) (concat (map pdu_bytes frs))"
    using size by (simp add: allocate_pdu_def ff length_concat_bytes)
  then show ?thesis
    using run frags complete by (simp add: z_def)
qed

text \<open>Claim C4. Let \<open>frs\<close> be the fragments of one valid datagram of less than
  \<open>2^32\<close> bytes, and \<open>xs\<close> and \<open>ys\<close> two runs of calls that present these fragments in
  any two orders, with timestamps that never time out: each call comes at most 2,000,000
  microseconds after the call before it, this time fitting in the 64 bits of the
  subtraction. Both runs leave a new store complete, and \<open>allocate_pdu\<close> returns the same
  result after both: the builder's result on the protocol of the first fragment and the
  payloads concatenated in datagram order.\<close>

theorem reassembly_order_independent:
  assumes "valid_datagram frs"
      and "mset (map snd xs) = mset frs" and "no_timeout xs"
      and "mset (map snd ys) = mset frs" and "no_timeout ys"
      and "datagram_size frs < 2 ^ 32"
  shows "\<exists>s s'. absorb_all d xs (IPv4Stream2_init d) = Some s \<and>
           absorb_all d ys (IPv4Stream2_init d) = Some s' \<and>
           is_complete s = Some True \<and> is_complete s' = Some True \<and>
           allocate_pdu bld s = allocate_pdu bld s' \<and>
           allocate_pdu bld s = bld (protocol (hdr (hd frs))) (concat (map pdu_bytes frs))"
  using valid_datagram_run [OF assms(1,2,3,6), of d bld]
        valid_datagram_run [OF assms(1,4,5,6), of d bld]
  by auto

lemma all_less_length_Cons:
  "(\<forall>i<length (x # xs). P i) \<longleftrightarrow> P 0 \<and> (\<forall>i<length xs. P (Suc i))"
  by (auto simp add: less_Suc_eq_0_disj)

lemma stitch_walk:
  "stitch fs e buf =
     (if \<forall>i<length fs. unat (offset (fs ! i)) = e + sum_list (map (\<lambda>f. length (payload f)) (take i fs))
      then Some (buf @ concat (map payload fs)) else None)"
proof (induction fs arbitrary: e buf)
  case Nil
  show ?case by simp
next
  case (Cons f fs)
  show ?case
    unfolding all_less_length_Cons
    by (auto simp add: Cons.IH add.assoc)
qed

lemma allocate_pdu_walk:
  "allocate_pdu bld s =
     (if \<forall>i<length (fragments s).
           unat (offset (fragments s ! i)) =
           sum_list (map (\<lambda>f. length (payload f)) (take i (fragments s)))
      then bld (protocol (first_fragment s))
             (take (length (concat (map payload (fragments s))) mod 2 ^ 32)
                (concat (map payload (fragments s))))
      else None)"
  (is "_ = (if ?A then ?r else None)")
proof -
  have st: "stitch (fragments s) 0 [] =
     (if ?A then Some (concat (map payload (fragments s))) else None)"
    using stitch_walk [of "fragments s" 0 "[]"] by simp
  show ?thesis
  proof (cases ?A)
    case True
    have "stitch (fragments s) 0 [] = Some (concat (map payload (fragments s)))"
      unfolding st using True by (rule if_P)
    then have "allocate_pdu bld s = ?r"
      by (simp add: allocate_pdu_def)
    then show ?thesis
      using True by (simp only: if_P if_True)
  next
    case False
    have "stitch (fragments s) 0 [] = None"
      unfolding st using False by (rule if_not_P)
    then have "allocate_pdu bld s = None"
      by (simp add: allocate_pdu_def)
    then show ?thesis
      using False by (simp only: if_not_P if_False)
  qed
qed

text \<open>Claim C3. In every store reached from a new store by \<open>add_fragment\<close> calls the
  fragments are walked in ascending offset order. If the offset of some fragment differs
  from the sum of the payload lengths of the fragments before it, \<open>allocate_pdu\<close> returns
  no result; otherwise (the buffer being shorter than \<open>2^32\<close> bytes, the width of the size
  passed on) it returns the builder's result on the concatenation of all payloads.\<close>

theorem allocate_pdu_stitches:
  assumes "absorb_all d xs (IPv4Stream2_init d) = Some s"
  shows "sorted (map offset (fragments s)) \<and>
     ((\<exists>i<length (fragments s).
          unat (offset (fragments s ! i)) \<noteq>
          sum_list (map (\<lambda>f. length (payload f)) (take i (fragments s)))) \<longrightarrow>
        allocate_pdu bld s = None) \<and>
     ((\<forall>i<length (fragments s).
          unat (offset (fragments s ! i)) =
          sum_list (map (\<lambda>f. length (payload f)) (take i (fragments s)))) \<and>
      length (concat (map payload (fragments s))) < 2 ^ 32 \<longrightarrow>
        allocate_pdu bld s =
        bld (protocol (first_fragment s)) (concat (map payload (fragments s))))"
proof -
  have "sorted_wrt (<) (map offset (fragments s))"
    using absorb_all_sorted [OF _ assms] by (simp add: IPv4Stream2_init_def)
  then have "sorted (map offset (fragments s))"
    by (simp add: strict_sorted_iff)
  then show ?thesis
    by (auto simp add: allocate_pdu_walk)
qed

lemma add_fragment_after_reset:
  "add_fragment d t ip
     (s\<lparr>received_size := 0, total_size := 0, received_end := False, fragments := [],
        first_fragment := d\<rparr>) =
   add_fragment d t ip (IPv4Stream2_init d)"
  by (cases "inner_pdu ip")
     (simp_all add: add_fragment_def handle_timeout_def store_fragment_def Let_def
        IPv4Stream2_init_def insert_at_def)

lemma add_fragment_timed_out:
  assumes "fragments s \<noteq> []" and "sint (t - last_timestamp s) > 2000000"
  shows "add_fragment d t ip s = add_fragment d t ip (IPv4Stream2_init d)"
proof -
  have "add_fragment d t ip s = add_fragment d t ip (handle_timeout d t s)"
    by (cases "inner_pdu ip") (simp_all add: add_fragment_def handle_timeout_def)
  also have "\<dots> = add_fragment d t ip (IPv4Stream2_init d)"
    using assms by (simp add: handle_timeout_def sint_fragment_timeout add_fragment_after_reset)
  finally show ?thesis .
qed

text \<open>Claim C5. When a store that holds a fragment is given a packet more than
  2,000,000 microseconds after \<open>last_timestamp\<close> (the time between the two fitting in the
  64 bits of the subtraction), the timeout branch clears the fragments, zeroes
  \<open>received_size\<close> and \<open>total_size\<close>, clears \<open>received_end\<close> and resets the header
  snapshot, and the call returns what it returns on a new store. In particular a new
  store that absorbs \<open>a\<close> at time 0 and \<open>b\<close> at time 3,000,000 ends as a new store that
  absorbs only \<open>b\<close>.\<close>

theorem timeout_resets_store:
  "(fragments s \<noteq> [] \<and> elapsed timestamp (last_timestamp s) > 2000000 \<and>
    fits_int64 (elapsed timestamp (last_timestamp s)) \<and> inner_pdu ip \<noteq> None \<longrightarrow>
      handle_timeout d timestamp s =
        s\<lparr>fragments := [], received_size := 0, total_size := 0, received_end := False,
          first_fragment := d\<rparr> \<and>
      add_fragment d timestamp ip s \<noteq> None \<and>
      add_fragment d timestamp ip s = add_fragment d timestamp ip (IPv4Stream2_init d)) \<and>
   (inner_pdu a \<noteq> None \<and> inner_pdu b \<noteq> None \<longrightarrow>
      absorb_all d [(0, a), (3000000, b)] (IPv4Stream2_init d) \<noteq> None \<and>
      absorb_all d [(0, a), (3000000, b)] (IPv4Stream2_init d) =
      absorb_all d [(3000000, b)] (IPv4Stream2_init d))"
proof (intro conjI impI)
  assume h: "fragments s \<noteq> [] \<and> elapsed timestamp (last_timestamp s) > 2000000 \<and>
    fits_int64 (elapsed timestamp (last_timestamp s)) \<and> inner_pdu ip \<noteq> None"
  then have late: "sint (timestamp - last_timestamp s) > 2000000"
    by (simp add: sint_elapsed)
  show "handle_timeout d timestamp s =
        s\<lparr>fragments := [], received_size := 0, total_size := 0, received_end := False,
          first_fragment := d\<rparr>"
    using h late by (simp add: handle_timeout_def sint_fragment_timeout)
  show "add_fragment d timestamp ip s \<noteq> None"
    using h add_fragment_Some [of ip _ d timestamp s] by auto
  show "add_fragment d timestamp ip s = add_fragment d timestamp ip (IPv4Stream2_init d)"
    using h late by (intro add_fragment_timed_out) simp_all
next
  assume h: "inner_pdu a \<noteq> None \<and> inner_pdu b \<noteq> None"
  then obtain pa pb where pa: "inner_pdu a = Some pa" and pb: "inner_pdu b = Some pb"
    by auto
  obtain s1 where s1: "add_fragment d 0 a (IPv4Stream2_init d) = Some s1"
    and t1: "last_timestamp s1 = 0"
    using add_fragment_Some [OF pa, of d 0 "IPv4Stream2_init d"] by blast
  have n1: "fragments s1 \<noteq> []"
    using s1 by (rule add_fragment_nonempty)
  have eq: "add_fragment d 3000000 b s1 = add_fragment d 3000000 b (IPv4Stream2_init d)"
    using n1 t1 by (intro add_fragment_timed_out) simp_all
  obtain s2 where s2: "add_fragment d 3000000 b (IPv4Stream2_init d) = Some s2"
    using add_fragment_Some [OF pb, of d 3000000 "IPv4Stream2_init d"] by blast
  show "absorb_all d [(0, a), (3000000, b)] (IPv4Stream2_init d) \<noteq> None"
    by (simp add: s1 eq s2)
  show "absorb_all d [(0, a), (3000000, b)] (IPv4Stream2_init d) =
        absorb_all d [(3000000, b)] (IPv4Stream2_init d)"
    by (simp add: s1 eq s2)
qed

section \<open>The reassembly table: \<open>process\<close>\<close>

lemma absorbed_complete_defined:
  assumes "absorbed d t ip r = Some stream"
  shows "is_complete stream = Some True \<or> is_complete stream = Some False"
proof -
  have "fragments stream \<noteq> []"
    using assms unfolding absorbed_def by (rule add_fragment_nonempty)
  then show ?thesis
    by (cases "fragments stream") (auto simp add: is_complete_def)
qed

lemma absorbed_Some:
  "inner_pdu ip \<noteq> None \<Longrightarrow> \<exists>stream. absorbed d t ip r = Some stream"
proof -
  assume "inner_pdu ip \<noteq> None"
  then obtain p where p: "inner_pdu ip = Some p" by auto
  show ?thesis
    unfolding absorbed_def
    using add_fragment_Some [OF p, of d t "lookup_or_create d (swept t (streams r)) (make_key ip)"]
    by blast
qed

lemma process_incomplete:
  assumes "inner_pdu ip \<noteq> None" and "is_fragmented ip"
      and "absorbed d t ip r = Some stream" and "is_complete stream = Some False"
  shows "process d bld t (Some ip) r =
     Some (FRAGMENTED, Some ip,
           r\<lparr>streams := (swept t (streams r))(make_key ip \<mapsto> stream)\<rparr>)"
proof -
  have a: "add_fragment d t ip (lookup_or_create d (swept t (streams r)) (make_key ip)) = Some stream"
    using assms(3) by (simp only: absorbed_def)
  have c: "inner_pdu ip \<noteq> None \<and> is_fragmented ip"
    using assms(1,2) by simp
  show ?thesis
    unfolding process_def Let_def
    by (simp only: option.case a assms(4) bool.case c if_True simp_thms)
qed

lemma process_complete:
  assumes "inner_pdu ip \<noteq> None" and "is_fragmented ip"
      and "absorbed d t ip r = Some stream" and "is_complete stream = Some True"
  shows "process d bld t (Some ip) r =
     (case allocate_pdu bld stream of
        None \<Rightarrow>
          Some (FRAGMENTED, Some \<lparr>hdr = first_fragment stream, inner_pdu = inner_pdu ip\<rparr>,
                r\<lparr>streams := (swept t (streams r))(make_key ip := None)\<rparr>)
      | Some p \<Rightarrow>
          Some (REASSEMBLED,
                Some \<lparr>hdr = (first_fragment stream)\<lparr>fragment_offset := 0, flags := 0\<rparr>,
                      inner_pdu = Some p\<rparr>,
                r\<lparr>streams := (swept t (streams r))(make_key ip := None)\<rparr>))"
proof -
  have a: "add_fragment d t ip (lookup_or_create d (swept t (streams r)) (make_key ip)) = Some stream"
    using assms(3) by (simp only: absorbed_def)
  have b: "assign_snapshot ip (first_fragment stream) =
           \<lparr>hdr = first_fragment stream, inner_pdu = inner_pdu ip\<rparr>"
    by (cases ip) (simp add: assign_snapshot_def)
  have c: "inner_pdu ip \<noteq> None \<and> is_fragmented ip"
    using assms(1,2) by simp
  have "process d bld t (Some ip) r =
     (case allocate_pdu bld stream of
        None \<Rightarrow>
          Some (FRAGMENTED, Some \<lparr>hdr = first_fragment stream, inner_pdu = inner_pdu ip\<rparr>,
                r\<lparr>streams := ((swept t (streams r))(make_key ip \<mapsto> stream))(make_key ip := None)\<rparr>)
      | Some p \<Rightarrow>
          Some (REASSEMBLED,
                Some (\<lparr>hdr = first_fragment stream, inner_pdu = inner_pdu ip\<rparr>
                       \<lparr>inner_pdu := Some p,
                        hdr := (hdr \<lparr>hdr = first_fragment stream, inner_pdu = inner_pdu ip\<rparr>)
                                 \<lparr>fragment_offset := 0, flags := 0\<rparr>\<rparr>),
                r\<lparr>streams := ((swept t (streams r))(make_key ip \<mapsto> stream))(make_key ip := None)\<rparr>))"
    unfolding process_def Let_def
    by (simp only: option.case a assms(4) bool.case c if_True b simp_thms)
  then show ?thesis
    by (cases "allocate_pdu bld stream") simp_all
qed

text \<open>Claim C6. When \<open>process\<close> is given a fragment and the store of its key is
  complete after absorbing it, the call returns, the table it leaves has no entry for the
  key, and the status is \<open>REASSEMBLED\<close> when \<open>allocate_pdu\<close> gives a result and
  \<open>FRAGMENTED\<close> when it gives none.\<close>

theorem completed_entry_is_removed:
  assumes "inner_pdu ip \<noteq> None" and "is_fragmented ip"
      and "Option.bind (absorbed d t ip r) is_complete = Some True"
  shows "\<exists>st pkt r'. process d bld t (Some ip) r = Some (st, pkt, r') \<and>
           streams r' (make_key ip) = None \<and>
           st = (if Option.bind (absorbed d t ip r) (allocate_pdu bld) = None
                 then FRAGMENTED else REASSEMBLED)"
proof -
  obtain stream where a: "absorbed d t ip r = Some stream" and c: "is_complete stream = Some True"
    using assms(3) by (cases "absorbed d t ip r") simp_all
  show ?thesis
    unfolding process_complete [OF assms(1,2) a c] a
    by (cases "allocate_pdu bld stream") simp_all
qed

text \<open>Claim C7. When \<open>process\<close> is given a fragment and the table has more than 100
  entries, then every entry of another key whose age, the time from its \<open>last_timestamp\<close>
  to the timestamp of the call, exceeds 2,000,000 microseconds is gone from the table the
  call leaves, and every entry of another key whose age does not exceed it is kept
  unchanged (the age fitting in the 64 bits of the subtraction). The sweep comes before
  the fragment is absorbed: the store that absorbs it is a new store when the entry of the
  packet's own key was older than that, and this entry otherwise.\<close>

theorem sweep_over_capacity:
  assumes "inner_pdu ip \<noteq> None" and "is_fragmented ip" and "card (dom (streams r)) > 100"
  shows "\<exists>st pkt r'. process d bld t (Some ip) r = Some (st, pkt, r') \<and>
     (\<forall>k s. k \<noteq> make_key ip \<and> streams r k = Some s \<and>
            fits_int64 (elapsed t (last_timestamp s)) \<longrightarrow>
        streams r' k = (if elapsed t (last_timestamp s) > 2000000 then None else Some s)) \<and>
     (\<forall>k. k \<noteq> make_key ip \<and> streams r k = None \<longrightarrow> streams r' k = None) \<and>
     (\<forall>s. streams r (make_key ip) = Some s \<and> fits_int64 (elapsed t (last_timestamp s)) \<longrightarrow>
        absorbed d t ip r =
          add_fragment d t ip
            (if elapsed t (last_timestamp s) > 2000000 then IPv4Stream2_init d else s)) \<and>
     (streams r (make_key ip) = None \<longrightarrow>
        absorbed d t ip r = add_fragment d t ip (IPv4Stream2_init d))"
proof -
  have sw: "swept t (streams r) = sweep t (streams r)"
    using assms(3) by (simp add: swept_def)
  have kept: "sweep t (streams r) k =
      (if elapsed t (last_timestamp s) > 2000000 then None else Some s)"
    if "streams r k = Some s" and "fits_int64 (elapsed t (last_timestamp s))" for k s
    using that by (simp add: sweep_def sint_fragment_timeout sint_elapsed)
  have absent: "sweep t (streams r) k = None" if "streams r k = None" for k
    using that by (simp add: sweep_def)
  have own: "absorbed d t ip r =
      add_fragment d t ip
        (if elapsed t (last_timestamp s) > 2000000 then IPv4Stream2_init d else s)"
    if "streams r (make_key ip) = Some s" and "fits_int64 (elapsed t (last_timestamp s))" for s
    unfolding absorbed_def sw
    by (simp add: lookup_or_create_def kept [OF that])
  have new: "absorbed d t ip r = add_fragment d t ip (IPv4Stream2_init d)"
    if "streams r (make_key ip) = None"
    unfolding absorbed_def sw
    by (simp add: lookup_or_create_def absent [OF that])
  obtain stream where a: "absorbed d t ip r = Some stream"
    using absorbed_Some [OF assms(1)] by blast
  consider "is_complete stream = Some True" | "is_complete stream = Some False"
    using absorbed_complete_defined [OF a] by blast
  then show ?thesis
  proof cases
    case 1
    show ?thesis
      unfolding process_complete [OF assms(1,2) a 1] sw
      using kept absent own new by (cases "allocate_pdu bld stream") simp_all
  next
    case 2
    show ?thesis
      unfolding process_incomplete [OF assms(1,2) a 2] sw
      using kept absent own new by simp
  qed
qed

text \<open>Claim C10, amended. When \<open>process\<close> is given a fragment, the store of its key
  is complete after absorbing it and \<open>allocate_pdu\<close> gives no result, the packet returned
  with \<open>FRAGMENTED\<close> has the header of the stored snapshot and the inner payload it came
  with. When \<open>allocate_pdu\<close> gives a result, the packet returned with \<open>REASSEMBLED\<close> has
  the header of the snapshot with fragment offset 0 and flags 0, and the result as its
  inner payload.\<close>

theorem failed_stitch_rewrites_header:
  assumes "inner_pdu ip \<noteq> None" and "is_fragmented ip"
      and "absorbed d t ip r = Some stream" and "is_complete stream = Some True"
  shows "\<exists>r'. process d bld t (Some ip) r =
     (case allocate_pdu bld stream of
        None \<Rightarrow>
          Some (FRAGMENTED, Some \<lparr>hdr = first_fragment stream, inner_pdu = inner_pdu ip\<rparr>, r')
      | Some p \<Rightarrow>
          Some (REASSEMBLED,
                Some \<lparr>hdr = (first_fragment stream)\<lparr>fragment_offset := 0, flags := 0\<rparr>,
                      inner_pdu = Some p\<rparr>, r'))"
  unfolding process_complete [OF assms]
  by (cases "allocate_pdu bld stream") simp_all

section \<open>The properties on the example packets\<close>

lemmas store_defs =
  add_fragment_def handle_timeout_def store_fragment_def extract_offset_def insert_at_def
  erase_at_def Let_def MORE_FRAGMENTS_def fragment_timeout_def IPv4Stream2_init_def

lemmas example_defs =
  example_default_def example_header_def fragment_A_def fragment_B_def fragment_C_def
  fragment_A_long_def fragment_far_def fragment_end_def

lemmas table_defs =
  absorbed_def swept_def lookup_or_create_def make_key_def make_address_pair_def
  gap_table_def gap_store_def old_store_def IPv4Reassembler2_init_def

lemma run_ABC:
  "absorb_all example_default [(0, fragment_A), (1, fragment_B), (2, fragment_C)]
     (IPv4Stream2_init example_default) =
   Some \<lparr>fragments =
           [\<lparr>payload = [65, 65, 65, 65, 65, 65, 65, 65], offset = 0\<rparr>,
            \<lparr>payload = [66, 66, 66, 66, 66, 66, 66, 66], offset = 8\<rparr>,
            \<lparr>payload = [67, 67], offset = 16\<rparr>],
         received_size = 18, total_size = 18, first_fragment = example_header 0 1,
         received_end = True, last_timestamp = 2\<rparr>"
  by (simp add: store_defs example_defs)

text \<open>Claim C1, evaluated on the code. After \<open>fragment_A\<close> (8 bytes at offset 0) and
  \<open>fragment_A_long\<close> (16 bytes at offset 0) the store holds the 16 bytes of the second
  fragment only, and \<open>received_size\<close> is still 8. After \<open>fragment_C\<close> (2 bytes at offset
  16, terminal) the store holds 18 contiguous bytes, \<open>total_size\<close> is 18 and
  \<open>received_size\<close> is 10.\<close>

theorem duplicate_leaves_received_size:
  "absorb_all example_default [(0, fragment_A), (1, fragment_A_long)]
     (IPv4Stream2_init example_default) =
   Some \<lparr>fragments =
           [\<lparr>payload = [68, 68, 68, 68, 68, 68, 68, 68, 68, 68, 68, 68, 68, 68, 68, 68],
             offset = 0\<rparr>],
         received_size = 8, total_size = 0, first_fragment = example_header 0 1,
         received_end = False, last_timestamp = 1\<rparr> \<and>
   absorb_all example_default [(0, fragment_A), (1, fragment_A_long), (2, fragment_C)]
     (IPv4Stream2_init example_default) =
   Some \<lparr>fragments =
           [\<lparr>payload = [68, 68, 68, 68, 68, 68, 68, 68, 68, 68, 68, 68, 68, 68, 68, 68],
             offset = 0\<rparr>,
            \<lparr>payload = [67, 67], offset = 16\<rparr>],
         received_size = 10, total_size = 18, first_fragment = example_header 0 1,
         received_end = True, last_timestamp = 2\<rparr>"
  by (simp add: store_defs example_defs)

text \<open>Claim C9 on \<open>gap_store\<close>, with offsets 0 and 24, absorbing
  \<open>fragment_B\<close> at offset 8.\<close>

theorem add_fragment_keeps_order_witness:
  "\<exists>s'. add_fragment example_default 2 fragment_B gap_store = Some s' \<and>
     map offset (fragments s') = [0, 8, 24]"
proof -
  have "sorted (map offset (fragments gap_store))" "distinct (map offset (fragments gap_store))"
    "inner_pdu fragment_B = Some [66, 66, 66, 66, 66, 66, 66, 66]"
    by (simp_all add: gap_store_def fragment_B_def)
  from add_fragment_keeps_order [OF this, of example_default 2]
  show ?thesis
    by (simp add: store_defs example_defs gap_store_def)
qed

text \<open>Claim C2 on the store that has absorbed \<open>fragment_A\<close>,
  \<open>fragment_B\<close> and \<open>fragment_C\<close>.\<close>

theorem is_complete_iff_witness:
  "\<exists>s. absorb_all example_default [(0, fragment_A), (1, fragment_B), (2, fragment_C)]
         (IPv4Stream2_init example_default) = Some s \<and> is_complete s = Some True"
  using is_complete_iff [OF run_ABC] run_ABC by simp

text \<open>Claim C3 on the same store: the stitched payload is
  \<open>AAAAAAAABBBBBBBBCC\<close>.\<close>

theorem allocate_pdu_stitches_witness:
  "\<exists>s. absorb_all example_default [(0, fragment_A), (1, fragment_B), (2, fragment_C)]
         (IPv4Stream2_init example_default) = Some s \<and>
       allocate_pdu raw_builder s =
       Some [65, 65, 65, 65, 65, 65, 65, 65, 66, 66, 66, 66, 66, 66, 66, 66, 67, 67]"
  using allocate_pdu_stitches [OF run_ABC, of raw_builder] run_ABC
  by (simp add: raw_builder_def All_less_Suc)

text \<open>Claim C4 on the three fragments, absorbed in the orders C, A, B
  and B, C, A.\<close>

theorem reassembly_order_independent_witness:
  "valid_datagram [fragment_A, fragment_B, fragment_C] \<and>
   no_timeout [(0, fragment_C), (1, fragment_A), (2, fragment_B)] \<and>
   no_timeout [(5, fragment_B), (3, fragment_C), (4, fragment_A)] \<and>
   (\<exists>s s'. absorb_all example_default [(0, fragment_C), (1, fragment_A), (2, fragment_B)]
              (IPv4Stream2_init example_default) = Some s \<and>
            absorb_all example_default [(5, fragment_B), (3, fragment_C), (4, fragment_A)]
              (IPv4Stream2_init example_default) = Some s' \<and>
            is_complete s = Some True \<and> is_complete s' = Some True \<and>
            allocate_pdu raw_builder s = allocate_pdu raw_builder s' \<and>
            allocate_pdu raw_builder s =
            Some [65, 65, 65, 65, 65, 65, 65, 65, 66, 66, 66, 66, 66, 66, 66, 66, 67, 67])"
proof -
  have v: "valid_datagram [fragment_A, fragment_B, fragment_C]"
    by (simp add: valid_datagram_def example_defs extract_offset_def MORE_FRAGMENTS_def
          pdu_bytes_def)
  have m1: "mset (map snd [(0::microseconds, fragment_C), (1, fragment_A), (2, fragment_B)]) =
            mset [fragment_A, fragment_B, fragment_C]"
    by simp
  have m2: "mset (map snd [(5::microseconds, fragment_B), (3, fragment_C), (4, fragment_A)]) =
            mset [fragment_A, fragment_B, fragment_C]"
    by simp
  have n1: "no_timeout [(0, fragment_C), (1, fragment_A), (2, fragment_B)]"
    by (simp add: no_timeout_def elapsed_def fits_int64_def)
  have n2: "no_timeout [(5, fragment_B), (3, fragment_C), (4, fragment_A)]"
    by (simp add: no_timeout_def elapsed_def fits_int64_def)
  have sz: "datagram_size [fragment_A, fragment_B, fragment_C] < 2 ^ 32"
    by (simp add: datagram_size_def pdu_bytes_def example_defs)
  have r: "raw_builder (protocol (hdr (hd [fragment_A, fragment_B, fragment_C])))
             (concat (map pdu_bytes [fragment_A, fragment_B, fragment_C])) =
           Some [65, 65, 65, 65, 65, 65, 65, 65, 66, 66, 66, 66, 66, 66, 66, 66, 67, 67]"
    by (simp add: raw_builder_def pdu_bytes_def example_defs)
  show ?thesis
    using reassembly_order_independent [OF v m1 n1 m2 n2 sz, of example_default raw_builder]
    unfolding r using v n1 n2 by blast
qed

text \<open>Claim C5 on \<open>old_store\<close>, which holds \<open>fragment_A\<close> since time 0, and
  \<open>fragment_B\<close> at time 3,000,000.\<close>

theorem timeout_resets_store_witness:
  "fragments old_store \<noteq> [] \<and> elapsed 3000000 (last_timestamp old_store) = 3000000 \<and>
   add_fragment example_default 3000000 fragment_B old_store =
     add_fragment example_default 3000000 fragment_B (IPv4Stream2_init example_default) \<and>
   absorb_all example_default [(0, fragment_A), (3000000, fragment_B)]
     (IPv4Stream2_init example_default) =
   Some \<lparr>fragments = [\<lparr>payload = [66, 66, 66, 66, 66, 66, 66, 66], offset = 8\<rparr>],
         received_size = 8, total_size = 0, first_fragment = example_default,
         received_end = False, last_timestamp = 3000000\<rparr>"
proof -
  have h: "fragments old_store \<noteq> []" "elapsed 3000000 (last_timestamp old_store) = 3000000"
    "fits_int64 (elapsed 3000000 (last_timestamp old_store))"
    "inner_pdu fragment_A \<noteq> None" "inner_pdu fragment_B \<noteq> None"
    by (simp_all add: old_store_def example_defs elapsed_def fits_int64_def)
  have one: "absorb_all example_default [(3000000, fragment_B)]
     (IPv4Stream2_init example_default) =
   Some \<lparr>fragments = [\<lparr>payload = [66, 66, 66, 66, 66, 66, 66, 66], offset = 8\<rparr>],
         received_size = 8, total_size = 0, first_fragment = example_default,
         received_end = False, last_timestamp = 3000000\<rparr>"
    by (simp add: store_defs example_defs)
  have late: "elapsed 3000000 (last_timestamp old_store) > 2000000"
    using h(2) by simp
  show ?thesis
    using timeout_resets_store [of old_store 3000000 fragment_B example_default
        fragment_A fragment_B] h late
    unfolding one by blast
qed

lemma gap_absorbed:
  "absorbed example_default 2 fragment_end gap_table =
   Some \<lparr>fragments = [\<lparr>payload = [65, 65, 65, 65, 65, 65, 65, 65], offset = 0\<rparr>,
                     \<lparr>payload = [70, 70, 70, 70, 70, 70, 70, 70], offset = 16\<rparr>,
                     \<lparr>payload = [69, 69, 69, 69, 69, 69, 69, 69], offset = 24\<rparr>],
         received_size = 24, total_size = 24, first_fragment = example_header 0 1,
         received_end = True, last_timestamp = 2\<rparr>"
  by (simp add: table_defs store_defs example_defs)

lemma gap_complete:
  "Option.bind (absorbed example_default 2 fragment_end gap_table) is_complete = Some True"
  unfolding gap_absorbed by (simp add: is_complete_def)

lemma gap_stitch:
  "Option.bind (absorbed example_default 2 fragment_end gap_table) (allocate_pdu bld) = None"
  unfolding gap_absorbed by (simp add: allocate_pdu_def)

lemma fragment_end_fragmented:
  "inner_pdu fragment_end \<noteq> None" "is_fragmented fragment_end"
  by (simp_all add: is_fragmented_def example_defs MORE_FRAGMENTS_def)

text \<open>Claim C6 on \<open>gap_table\<close> and \<open>fragment_end\<close>: the store becomes
  complete, the stitch fails, and the entry is removed.\<close>

theorem completed_entry_is_removed_witness:
  "Option.bind (absorbed example_default 2 fragment_end gap_table) is_complete = Some True \<and>
   streams gap_table (make_key fragment_end) = Some gap_store \<and>
   (\<exists>pkt r'. process example_default raw_builder 2 (Some fragment_end) gap_table =
              Some (FRAGMENTED, pkt, r') \<and>
            streams r' (make_key fragment_end) = None)"
proof -
  have "streams gap_table (make_key fragment_end) = Some gap_store"
    by (simp add: table_defs example_defs)
  then show ?thesis
    using completed_entry_is_removed [OF fragment_end_fragmented gap_complete, of raw_builder]
      gap_complete
    unfolding gap_stitch by auto
qed

lemma crowded_keys_inj:
  "inj_on (\<lambda>i. (of_nat i :: 16 word, (1::32 word, 2::32 word))) {0..<101}"
  by (rule inj_onI) (simp add: word_of_nat_eq_iff take_bit_nat_eq_self)

lemma crowded_distinct:
  "distinct (map fst (map (\<lambda>i. ((of_nat i :: 16 word, (1::32 word, 2::32 word)),
                                 old_store\<lparr>last_timestamp := 30000 * of_nat i\<rparr>)) [0..<101]))"
  using crowded_keys_inj by (simp add: distinct_map comp_def)

lemma crowded_lookup:
  assumes "i < 101"
  shows "streams crowded_table (of_nat i, (1, 2)) =
         Some (old_store\<lparr>last_timestamp := 30000 * of_nat i\<rparr>)"
proof -
  have "((of_nat i :: 16 word, (1::32 word, 2::32 word)),
         old_store\<lparr>last_timestamp := 30000 * of_nat i\<rparr>) \<in>
        set (map (\<lambda>i. ((of_nat i, (1, 2)), old_store\<lparr>last_timestamp := 30000 * of_nat i\<rparr>))
               [0..<101])"
    using assms by (auto simp add: image_iff intro!: bexI [of _ i])
  then show ?thesis
    unfolding crowded_table_def
    using map_of_eq_Some_iff [OF crowded_distinct] by simp
qed

lemma crowded_card: "card (dom (streams crowded_table)) = 101"
proof -
  have "dom (streams crowded_table) =
        (\<lambda>i. (of_nat i :: 16 word, (1::32 word, 2::32 word))) ` {0..<101}"
    by (simp add: crowded_table_def dom_map_of_conv_image_fst image_image)
  then show ?thesis
    using card_image [OF crowded_keys_inj] by simp
qed

lemma fragment_A_fragmented:
  "inner_pdu fragment_A \<noteq> None" "is_fragmented fragment_A"
  by (simp_all add: is_fragmented_def example_defs MORE_FRAGMENTS_def)

text \<open>Claim C7 on the table of 101 stores at time 3,000,000: the store of
  identifier 5, of age 2,850,000, is removed, and the store of identifier 50, of age
  1,500,000, is kept.\<close>

theorem sweep_over_capacity_witness:
  "card (dom (streams crowded_table)) > 100 \<and>
   streams crowded_table (5, (1, 2)) = Some (old_store\<lparr>last_timestamp := 150000\<rparr>) \<and>
   streams crowded_table (50, (1, 2)) = Some (old_store\<lparr>last_timestamp := 1500000\<rparr>) \<and>
   elapsed 3000000 150000 = 2850000 \<and> elapsed 3000000 1500000 = 1500000 \<and>
   (\<exists>st pkt r'. process example_default raw_builder 3000000 (Some fragment_A) crowded_table =
                 Some (st, pkt, r') \<and>
               streams r' (5, (1, 2)) = None \<and>
               streams r' (50, (1, 2)) = Some (old_store\<lparr>last_timestamp := 1500000\<rparr>))"
proof -
  have c: "card (dom (streams crowded_table)) > 100"
    by (simp add: crowded_card)
  have l5: "streams crowded_table (5, (1, 2)) = Some (old_store\<lparr>last_timestamp := 150000\<rparr>)"
    using crowded_lookup [of 5] by simp
  have l50: "streams crowded_table (50, (1, 2)) = Some (old_store\<lparr>last_timestamp := 1500000\<rparr>)"
    using crowded_lookup [of 50] by simp
  have e5: "elapsed 3000000 150000 = 2850000" and e50: "elapsed 3000000 1500000 = 1500000"
    by (simp_all add: elapsed_def)
  have k: "make_key fragment_A = (7, (1, 2))"
    by (simp add: make_key_def make_address_pair_def example_defs)
  obtain st pkt r' where p: "process example_default raw_builder 3000000 (Some fragment_A)
      crowded_table = Some (st, pkt, r')"
    and others: "\<forall>k s. k \<noteq> make_key fragment_A \<and> streams crowded_table k = Some s \<and>
            fits_int64 (elapsed 3000000 (last_timestamp s)) \<longrightarrow>
        streams r' k = (if elapsed 3000000 (last_timestamp s) > 2000000 then None else Some s)"
    using sweep_over_capacity [OF fragment_A_fragmented c, of example_default raw_builder 3000000]
    by blast
  have "streams r' (5, (1, 2)) = None"
    using others [rule_format, of "(5, (1, 2))" "old_store\<lparr>last_timestamp := 150000\<rparr>"]
    by (simp add: k l5 e5 fits_int64_def)
  moreover have "streams r' (50, (1, 2)) = Some (old_store\<lparr>last_timestamp := 1500000\<rparr>)"
    using others [rule_format, of "(50, (1, 2))" "old_store\<lparr>last_timestamp := 1500000\<rparr>"]
    by (simp add: k l50 e50 fits_int64_def)
  ultimately show ?thesis
    using c l5 l50 e5 e50 p by blast
qed

text \<open>Claim C10, amended, on \<open>gap_table\<close> and \<open>fragment_end\<close>.\<close>

theorem failed_stitch_rewrites_header_witness:
  "hdr fragment_end = example_header 2 0 \<and>
   (\<exists>r'. process example_default raw_builder 2 (Some fragment_end) gap_table =
          Some (FRAGMENTED,
                Some \<lparr>hdr = example_header 0 1,
                      inner_pdu = Some [70, 70, 70, 70, 70, 70, 70, 70]\<rparr>, r'))"
proof -
  have c: "is_complete
     \<lparr>fragments = [\<lparr>payload = [65, 65, 65, 65, 65, 65, 65, 65], offset = 0\<rparr>,
                   \<lparr>payload = [70, 70, 70, 70, 70, 70, 70, 70], offset = 16\<rparr>,
                   \<lparr>payload = [69, 69, 69, 69, 69, 69, 69, 69], offset = 24\<rparr>],
       received_size = 24, total_size = 24, first_fragment = example_header 0 1,
       received_end = True, last_timestamp = 2\<rparr> = Some True"
    by (simp add: is_complete_def)
  show ?thesis
    using failed_stitch_rewrites_header [OF fragment_end_fragmented gap_absorbed c, of raw_builder]
    by (simp add: allocate_pdu_def fragment_end_def)
qed

text \<open>Claim C10 as stated fails on \<open>gap_table\<close> and \<open>fragment_end\<close>: the stitch
  fails, the packet returned with \<open>FRAGMENTED\<close> has the header of \<open>fragment_A\<close>, and its
  inner payload is still the 8 bytes of \<open>fragment_end\<close>.\<close>

theorem failed_stitch_keeps_payload:
  "process example_default raw_builder 2 (Some fragment_end) gap_table =
   Some (FRAGMENTED,
         Some \<lparr>hdr = example_header 0 1, inner_pdu = Some [70, 70, 70, 70, 70, 70, 70, 70]\<rparr>,
         \<lparr>streams = Map.empty, technique = NONE\<rparr>)"
proof -
  have c: "is_complete
     \<lparr>fragments = [\<lparr>payload = [65, 65, 65, 65, 65, 65, 65, 65], offset = 0\<rparr>,
                   \<lparr>payload = [70, 70, 70, 70, 70, 70, 70, 70], offset = 16\<rparr>,
                   \<lparr>payload = [69, 69, 69, 69, 69, 69, 69, 69], offset = 24\<rparr>],
       received_size = 24, total_size = 24, first_fragment = example_header 0 1,
       received_end = True, last_timestamp = 2\<rparr> = Some True"
    by (simp add: is_complete_def)
  show ?thesis
    unfolding process_complete [OF fragment_end_fragmented gap_absorbed c]
    by (simp add: allocate_pdu_def table_defs example_defs)
qed

text \<open>\<open>gap_table\<close> is the table after \<open>process\<close> has been given \<open>fragment_A\<close> and
  \<open>fragment_far\<close>.\<close>

lemma gap_table_reached:
  "process example_default raw_builder 0 (Some fragment_A) IPv4Reassembler2_init =
     Some (FRAGMENTED, Some fragment_A,
           \<lparr>streams = [(7, (1, 2)) \<mapsto> old_store], technique = NONE\<rparr>) \<and>
   process example_default raw_builder 1 (Some fragment_far)
     \<lparr>streams = [(7, (1, 2)) \<mapsto> old_store], technique = NONE\<rparr> =
     Some (FRAGMENTED, Some fragment_far, gap_table)"
proof -
  have far: "inner_pdu fragment_far \<noteq> None" "is_fragmented fragment_far"
    by (simp_all add: is_fragmented_def example_defs MORE_FRAGMENTS_def)
  have a1: "absorbed example_default 0 fragment_A IPv4Reassembler2_init = Some old_store"
    by (simp add: table_defs store_defs example_defs)
  have c1: "is_complete old_store = Some False"
    by (simp add: is_complete_def old_store_def)
  have a2: "absorbed example_default 1 fragment_far
              \<lparr>streams = [(7, (1, 2)) \<mapsto> old_store], technique = NONE\<rparr> = Some gap_store"
    by (simp add: table_defs store_defs example_defs)
  have c2: "is_complete gap_store = Some False"
    by (simp add: is_complete_def gap_store_def)
  show ?thesis
    unfolding process_incomplete [OF fragment_A_fragmented a1 c1]
      process_incomplete [OF far a2 c2]
    by (simp add: table_defs example_defs)
qed

text \<open>The subtraction of timestamps wraps around: from the timestamp
  \<open>-9223372036854775807\<close> to the timestamp 2 the 64-bit difference is negative, so the
  timeout branch keeps the fragments and the sweep keeps the entry.\<close>

lemma timestamp_difference_wraps:
  "handle_timeout example_default 2 (old_store\<lparr>last_timestamp := - 9223372036854775807\<rparr>) =
     old_store\<lparr>last_timestamp := - 9223372036854775807\<rparr> \<and>
   sweep 2 [(7, (1, 2)) \<mapsto> old_store\<lparr>last_timestamp := - 9223372036854775807\<rparr>] (7, (1, 2)) =
     Some (old_store\<lparr>last_timestamp := - 9223372036854775807\<rparr>) \<and>
   \<not> fits_int64 (elapsed 2 (- 9223372036854775807))"
  by (simp add: handle_timeout_def sweep_def fragment_timeout_def old_store_def elapsed_def
        fits_int64_def)

end
